theory Spec2Isabelle
  imports Main "HOL-Library.Word"
begin

section \<open>Text, bytes and the interpreter's built-ins\<close>

text \<open>
  A Python \<open>str\<close> is a sequence of Unicode code points, a \<open>bytes\<close> object a sequence
  of octets. Both servers read octets from the socket, decode them as UTF-8 and work on
  the resulting text.
\<close>

type_synonym ucp = nat
type_synonym ustr = "ucp list"
type_synonym byte = "8 word"

text \<open>Text and octets of an ASCII literal.\<close>

definition ascii :: "string \<Rightarrow> ustr" where
  "ascii s = map of_char s"

definition octets :: "string \<Rightarrow> byte list" where
  "octets s = map of_char s"

definition nl :: ustr where
  "nl = [0x0A]"

datatype exn = OSError | UnicodeDecodeError | OverflowError

subsection \<open>The Unicode character database\<close>

text \<open>
  \<open>str.isalpha\<close>, \<open>str.isspace\<close> and \<open>str.lower\<close> are answered by the interpreter from
  the Unicode character database, which is not part of the repository. The servers are
  therefore modelled relative to a database \<open>U\<close>: \<open>isalpha U c\<close> and \<open>isspace U c\<close>
  classify one code point, \<open>lower U s\<close> is \<open>s.lower()\<close> of a whole string (lowercasing
  is not character-wise in general: one code point may become two).
\<close>

record ucd =
  isalpha :: "ucp \<Rightarrow> bool"
  isspace :: "ucp \<Rightarrow> bool"
  lower :: "ustr \<Rightarrow> ustr"

text \<open>\<open>s.strip()\<close>: white space is removed at both ends.\<close>

definition strip :: "ucd \<Rightarrow> ustr \<Rightarrow> ustr" where
  "strip U s = rev (dropWhile (isspace U) (rev (dropWhile (isspace U) s)))"

text \<open>
  The database on the code points that the concrete scenarios below use: Basic Latin,
  the white-space code points, and U+0130 (LATIN CAPITAL LETTER I WITH DOT ABOVE), a
  letter whose lowercase form is the two code points U+0069 U+0307. On these code
  points the three tables are CPython's; no other code point is classified.
\<close>

definition is_upper_latin :: "ucp \<Rightarrow> bool" where
  "is_upper_latin c = (0x41 \<le> c \<and> c \<le> 0x5A)"

definition is_lower_latin :: "ucp \<Rightarrow> bool" where
  "is_lower_latin c = (0x61 \<le> c \<and> c \<le> 0x7A)"

definition py_isalpha :: "ucp \<Rightarrow> bool" where
  "py_isalpha c = (is_upper_latin c \<or> is_lower_latin c \<or> c = 0x130)"

definition py_isspace :: "ucp \<Rightarrow> bool" where
  "py_isspace c =
     ((0x09 \<le> c \<and> c \<le> 0x0D) \<or> (0x1C \<le> c \<and> c \<le> 0x20) \<or> c = 0x85 \<or> c = 0xA0
      \<or> c = 0x1680 \<or> (0x2000 \<le> c \<and> c \<le> 0x200A) \<or> c = 0x2028 \<or> c = 0x2029
      \<or> c = 0x202F \<or> c = 0x205F \<or> c = 0x3000)"

definition py_lower_cp :: "ucp \<Rightarrow> ustr" where
  "py_lower_cp c =
     (if is_upper_latin c then [c + 0x20]
      else if c = 0x130 then [0x69, 0x307]
      else [c])"

definition py_lower :: "ustr \<Rightarrow> ustr" where
  "py_lower s = concat (map py_lower_cp s)"

definition py_ucd :: ucd where
  "py_ucd = \<lparr>isalpha = py_isalpha, isspace = py_isspace, lower = py_lower\<rparr>"

subsection \<open>Decoding UTF-8\<close>

text \<open>
  \<open>bytes.decode('utf-8')\<close> in strict mode: well-formed sequences of one to four octets
  (no overlong forms, no surrogates, nothing above U+10FFFF) give one code point each;
  anything else raises \<open>UnicodeDecodeError\<close>.
\<close>

definition is_cont :: "byte \<Rightarrow> bool" where
  "is_cont b = (0x80 \<le> b \<and> b \<le> 0xBF)"

definition cont_bits :: "byte \<Rightarrow> nat" where
  "cont_bits b = unat b - 0x80"

text \<open>The length of the sequence that a lead octet starts; 0 for an octet that starts none.\<close>

definition seq_len :: "byte \<Rightarrow> nat" where
  "seq_len b =
     (if b < 0x80 then 1
      else if 0xC2 \<le> b \<and> b \<le> 0xDF then 2
      else if 0xE0 \<le> b \<and> b \<le> 0xEF then 3
      else if 0xF0 \<le> b \<and> b \<le> 0xF4 then 4
      else 0)"

definition lead_bits :: "byte \<Rightarrow> nat" where
  "lead_bits b =
     (if b < 0x80 then unat b
      else if b \<le> 0xDF then unat b - 0xC0
      else if b \<le> 0xEF then unat b - 0xE0
      else unat b - 0xF0)"

text \<open>
  The octet after the leads E0, ED, F0 and F4 has a smaller range: it excludes the
  overlong forms, the surrogates and the code points above U+10FFFF.
\<close>

definition second_ok :: "byte \<Rightarrow> byte list \<Rightarrow> bool" where
  "second_ok b rest =
     (case rest of
        [] \<Rightarrow> True
      | b1 # _ \<Rightarrow>
          if b = 0xE0 then 0xA0 \<le> b1
          else if b = 0xED then b1 \<le> 0x9F
          else if b = 0xF0 then 0x90 \<le> b1
          else if b = 0xF4 then b1 \<le> 0x8F
          else True)"

definition code_point :: "byte \<Rightarrow> byte list \<Rightarrow> ucp" where
  "code_point b rest = foldl (\<lambda>a c. a * 0x40 + cont_bits c) (lead_bits b) rest"

function utf8_decode :: "byte list \<Rightarrow> ustr option" where
  "utf8_decode [] = Some []"
| "utf8_decode (b # bs) =
     (let n = seq_len b; rest = take (n - 1) bs
      in if 0 < n \<and> n - 1 \<le> length rest \<and> list_all is_cont rest \<and> second_ok b rest
         then map_option (Cons (code_point b rest)) (utf8_decode (drop (n - 1) bs))
         else None)"
  by pat_completeness auto
termination
  by (relation "measure length") auto

definition decode :: "byte list \<Rightarrow> exn + ustr" where
  "decode bs = (case utf8_decode bs of None \<Rightarrow> Inl UnicodeDecodeError | Some s \<Rightarrow> Inr s)"

subsection \<open>Formatting an integer\<close>

text \<open>\<open>f"{count}"\<close> for a non-negative count: its decimal digits.\<close>

fun str_of_nat :: "nat \<Rightarrow> ustr" where
  "str_of_nat n = (if n < 10 then [0x30 + n] else str_of_nat (n div 10) @ [0x30 + n mod 10])"

section \<open>The socket of one connection\<close>

text \<open>
  \<open>pending\<close> holds the octets the client has sent. \<open>recv n\<close> is the single bounded read
  of the handlers: it returns at most \<open>n\<close> of them. A socket operation on a broken
  connection raises \<open>OSError\<close>; \<open>recv_fails\<close> and \<open>send_fails\<close> say whether it does.
  \<open>sent\<close> lists the replies that reached the client, as text (each is sent in UTF-8).
\<close>

record conn =
  pending :: "byte list"
  recv_fails :: bool
  send_fails :: bool
  sent :: "ustr list"
  closed :: bool

definition recv :: "nat \<Rightarrow> conn \<Rightarrow> exn + (byte list \<times> conn)" where
  "recv n c =
     (if recv_fails c then Inl OSError
      else Inr (take n (pending c), c\<lparr>pending := drop n (pending c)\<rparr>))"

text \<open>
  \<open>sendall\<close> is the last statement of every path through the \<open>try\<close> block, so its
  result is the result of the block: the exception raised, if any, and the connection.
\<close>

definition sendall :: "ustr \<Rightarrow> conn \<Rightarrow> exn option \<times> conn" where
  "sendall msg c =
     (if send_fails c then (Some OSError, c) else (None, c\<lparr>sent := sent c @ [msg]\<rparr>))"

definition close :: "conn \<Rightarrow> conn" where
  "close c = c\<lparr>closed := True\<rparr>"

section \<open>tcp_server.py: the last-character server\<close>

definition count_last_character :: "ucd \<Rightarrow> ustr \<Rightarrow> nat" where
  "count_last_character U text =
     (if text = [] then 0
      else let last_char = lower U [last text]
           in length (filter (\<lambda>char. [char] = last_char) (lower U text)))"

definition validate_text :: "ucd \<Rightarrow> ustr \<Rightarrow> bool" where
  "validate_text U text = (text \<noteq> [] \<and> list_all (isalpha U) text)"

definition msg_no_data :: ustr where
  "msg_no_data = ascii ''ERROR: No se recibieron datos'' @ nl"

definition msg_not_alpha :: ustr where
  "msg_not_alpha =
     ascii ''ERROR: El mensaje debe contener solo caracteres alfab'' @ [0xE9]
     @ ascii ''ticos'' @ nl"

definition msg_internal :: ustr where
  "msg_internal = ascii ''ERROR: Error interno del servidor'' @ nl"

text \<open>The \<open>try\<close> block of \<open>handle_client\<close>.\<close>

definition try_block :: "ucd \<Rightarrow> conn \<Rightarrow> exn option \<times> conn" where
  "try_block U c =
     (case recv 1024 c of
        Inl e \<Rightarrow> (Some e, c)
      | Inr (raw, c1) \<Rightarrow>
          (case decode raw of
             Inl e \<Rightarrow> (Some e, c1)
           | Inr text \<Rightarrow>
               let data = strip U text in
               if data = [] then sendall msg_no_data c1
               else if \<not> validate_text U data then sendall msg_not_alpha c1
               else sendall (str_of_nat (count_last_character U data) @ nl) c1))"

text \<open>
  \<open>handle_client\<close>: the \<open>try\<close> block, the handler of any exception (which tries to
  send the internal-error line and ignores a failure to do so), and the \<open>finally\<close>
  clause, which closes the socket.
\<close>

definition handle_client :: "ucd \<Rightarrow> conn \<Rightarrow> conn" where
  "handle_client U c =
     (case try_block U c of
        (None, c1) \<Rightarrow> close c1
      | (Some e, c1) \<Rightarrow> close (snd (sendall msg_internal c1)))"

text \<open>A connection on which the client has sent the octets \<open>bs\<close>.\<close>

definition client :: "byte list \<Rightarrow> conn" where
  "client bs = \<lparr>pending = bs, recv_fails = False, send_fails = False, sent = [], closed = False\<rparr>"

section \<open>tcp_server_V2.py: the last-vowel server with the primality check\<close>

text \<open>\<open>self.vowels = set('aeiouAEIOU')\<close>\<close>

definition vowels :: "ucp set" where
  "vowels = set (ascii ''aeiouAEIOU'')"

text \<open>The loop of \<open>find_last_vowel\<close> over the reversed text.\<close>

fun find_last_vowel_loop :: "ucd \<Rightarrow> ustr \<Rightarrow> ustr option" where
  "find_last_vowel_loop U [] = None"
| "find_last_vowel_loop U (char # rest) =
     (if char \<in> vowels then Some (lower U [char]) else find_last_vowel_loop U rest)"

definition find_last_vowel :: "ucd \<Rightarrow> ustr \<Rightarrow> ustr option" where
  "find_last_vowel U text = find_last_vowel_loop U (rev text)"

definition count_vowel_occurrences :: "ucd \<Rightarrow> ustr \<Rightarrow> ustr option \<Rightarrow> nat" where
  "count_vowel_occurrences U text vowel =
     (case vowel of
        None \<Rightarrow> 0
      | Some v \<Rightarrow>
          if v = [] then 0
          else length (filter (\<lambda>char. [char] = lower U v) (lower U text)))"

text \<open>
  \<open>int(n ** 0.5)\<close> converts \<open>n\<close> to a double, which raises \<open>OverflowError\<close> from
  \<open>2 ^ 1024 - 2 ^ 970\<close> on (the first integer that rounds beyond the largest double),
  takes the power in double arithmetic and truncates. Double arithmetic is outside this
  development: \<open>fsqrt n\<close> stands for the truncated result on a convertible \<open>n\<close>.
\<close>

definition float_limit :: int where
  "float_limit = 2 ^ 1024 - 2 ^ 970"

definition int_pow_half :: "(int \<Rightarrow> int) \<Rightarrow> int \<Rightarrow> exn + int" where
  "int_pow_half fsqrt n = (if float_limit \<le> n then Inl OverflowError else Inr (fsqrt n))"

text \<open>The loop \<open>for i in range(3, stop, 2)\<close> of \<open>is_prime\<close>, from \<open>i\<close> on.\<close>

function trial_division :: "int \<Rightarrow> int \<Rightarrow> int \<Rightarrow> bool" where
  "trial_division n i stop =
     (if i < stop then (if n mod i = 0 then False else trial_division n (i + 2) stop)
      else True)"
  by pat_completeness auto
termination
  by (relation "measure (\<lambda>(n, i, stop). nat (stop - i))") auto

declare trial_division.simps [simp del]

definition is_prime :: "(int \<Rightarrow> int) \<Rightarrow> int \<Rightarrow> exn + bool" where
  "is_prime fsqrt n =
     (if n < 2 then Inr False
      else if n = 2 then Inr True
      else if n mod 2 = 0 then Inr False
      else (case int_pow_half fsqrt n of
              Inl e \<Rightarrow> Inl e
            | Inr r \<Rightarrow> Inr (trial_division n 3 (r + 1))))"

text \<open>
  The exact integer square root. For the small counts of the scenarios below it is what
  \<open>int(n ** 0.5)\<close> evaluates to.
\<close>

function isqrt_from :: "int \<Rightarrow> int \<Rightarrow> int" where
  "isqrt_from n r = (if 0 \<le> r \<and> (r + 1) * (r + 1) \<le> n then isqrt_from n (r + 1) else r)"
  by pat_completeness auto
termination
proof (relation "measure (\<lambda>(n, r). nat (n - r))")
  show "wf (measure (\<lambda>(n, r). nat (n - r)))" by simp
next
  fix n r :: int
  assume a: "0 \<le> r \<and> (r + 1) * (r + 1) \<le> n"
  have "(r + 1) * (r + 1) = r * r + 2 * r + 1" by (simp add: algebra_simps)
  moreover have "0 \<le> r * r" by simp
  ultimately have "r < n" using a by linarith
  then show "((n, r + 1), (n, r)) \<in> measure (\<lambda>(n, r). nat (n - r))" by simp
qed

declare isqrt_from.simps [simp del]

definition isqrt :: "int \<Rightarrow> int" where
  "isqrt n = isqrt_from n 0"

definition validate_text_V2 :: "ucd \<Rightarrow> ustr \<Rightarrow> bool" where
  "validate_text_V2 U text = list_all (\<lambda>char. isalpha U char \<or> isspace U char) text"

subsection \<open>The log file\<close>

text \<open>
  \<open>content\<close> is the text of the log file (empty while the file does not exist: mode
  \<open>'a'\<close> creates it). \<open>open_fails\<close> says whether \<open>open(self.log_file, 'a')\<close> raises.
  \<open>room\<close> bounds what the writes can still store: \<open>None\<close> when every write succeeds,
  \<open>Some r\<close> when only \<open>r\<close> more characters reach the file. A write that fits is
  stored; the first write that does not fit stores what fits and raises.
\<close>

record log_store =
  content :: ustr
  open_fails :: bool
  room :: "nat option"

text \<open>\<open>f.write(s)\<close>\<close>

definition f_write :: "ustr \<Rightarrow> log_store \<Rightarrow> exn option \<times> log_store" where
  "f_write s L =
     (case room L of
        None \<Rightarrow> (None, L\<lparr>content := content L @ s\<rparr>)
      | Some r \<Rightarrow>
          if length s \<le> r
          then (None, L\<lparr>content := content L @ s, room := Some (r - length s)\<rparr>)
          else (Some OSError, L\<lparr>content := content L @ take r s, room := Some 0\<rparr>))"

text \<open>The six strings that \<open>save_to_log\<close> writes, in its order.\<close>

definition log_lines :: "ustr \<Rightarrow> ustr \<Rightarrow> nat \<Rightarrow> ustr \<Rightarrow> ustr \<Rightarrow> ustr list" where
  "log_lines timestamp message count is_prime_result last_vowel =
     [ascii ''Fecha: '' @ timestamp @ nl,
      ascii ''Mensaje: '' @ message @ nl,
      [0xDA] @ ascii ''ltima vocal: '' @ last_vowel @ nl,
      ascii ''Repeticiones: '' @ str_of_nat count @ nl,
      [0xBF] @ ascii ''Es primo?: '' @ is_prime_result @ nl,
      replicate 80 0x2D @ nl @ nl]"

text \<open>A complete record: the six strings one after the other.\<close>

definition log_record :: "ustr \<Rightarrow> ustr \<Rightarrow> nat \<Rightarrow> ustr \<Rightarrow> ustr \<Rightarrow> ustr" where
  "log_record timestamp message count is_prime_result last_vowel =
     concat (log_lines timestamp message count is_prime_result last_vowel)"

text \<open>
  The body of the \<open>with open(...)\<close> block: the writes one after the other, up to the
  first that raises. What was written before stays in the file.
\<close>

fun write_all :: "ustr list \<Rightarrow> log_store \<Rightarrow> log_store" where
  "write_all [] L = L"
| "write_all (s # ss) L =
     (case f_write s L of
        (None, L1) \<Rightarrow> write_all ss L1
      | (Some e, L1) \<Rightarrow> L1)"

text \<open>
  \<open>save_to_log\<close>: the \<open>try\<close> around \<open>open\<close> and the writes catches every exception
  and only reports it, so the function always returns normally.
\<close>

definition save_to_log :: "ustr \<Rightarrow> ustr \<Rightarrow> nat \<Rightarrow> ustr \<Rightarrow> ustr \<Rightarrow> log_store \<Rightarrow> log_store" where
  "save_to_log timestamp message count is_prime_result last_vowel L =
     (if open_fails L then L
      else write_all (log_lines timestamp message count is_prime_result last_vowel) L)"

subsection \<open>The handler\<close>

definition msg_not_letters :: ustr where
  "msg_not_letters = ascii ''ERROR: El mensaje debe contener solo letras y espacios'' @ nl"

definition msg_only_spaces :: ustr where
  "msg_only_spaces =
     ascii ''ERROR: El mensaje no puede estar vac'' @ [0xED]
     @ ascii ''o o contener solo espacios'' @ nl"

definition msg_no_vowel :: ustr where
  "msg_no_vowel = ascii ''ERROR: El mensaje debe contener al menos una vocal'' @ nl"

text \<open>A path of the \<open>try\<close> block that only replies leaves the log as it is.\<close>

definition reply_only :: "log_store \<Rightarrow> exn option \<times> conn \<Rightarrow> exn option \<times> log_store \<times> conn" where
  "reply_only L r = (fst r, L, snd r)"

text \<open>
  The \<open>try\<close> block of \<open>handle_client\<close>; \<open>now\<close> is the formatted time that
  \<open>datetime.now()\<close> gives.
\<close>

definition try_block_V2 ::
  "ucd \<Rightarrow> (int \<Rightarrow> int) \<Rightarrow> ustr \<Rightarrow> log_store \<Rightarrow> conn \<Rightarrow> exn option \<times> log_store \<times> conn" where
  "try_block_V2 U fsqrt now L c =
     (case recv 4096 c of
        Inl e \<Rightarrow> (Some e, L, c)
      | Inr (raw, c1) \<Rightarrow>
          (case decode raw of
             Inl e \<Rightarrow> (Some e, L, c1)
           | Inr text \<Rightarrow>
               let data = strip U text in
               if data = [] then reply_only L (sendall msg_no_data c1)
               else if \<not> validate_text_V2 U data then reply_only L (sendall msg_not_letters c1)
               else if strip U data = [] then reply_only L (sendall msg_only_spaces c1)
               else
                 (case find_last_vowel U data of
                    None \<Rightarrow> reply_only L (sendall msg_no_vowel c1)
                  | Some last_vowel \<Rightarrow>
                      if last_vowel = [] then reply_only L (sendall msg_no_vowel c1)
                      else
                        let count = count_vowel_occurrences U data (Some last_vowel) in
                        (case is_prime fsqrt (int count) of
                           Inl e \<Rightarrow> (Some e, L, c1)
                         | Inr p \<Rightarrow>
                             let is_prime_result = (if p then ascii ''SI'' else ascii ''NO'');
                                 L1 = save_to_log now data count is_prime_result last_vowel L
                             in reply_only L1 (sendall (str_of_nat count @ nl) c1)))))"

definition handle_client_V2 ::
  "ucd \<Rightarrow> (int \<Rightarrow> int) \<Rightarrow> ustr \<Rightarrow> log_store \<Rightarrow> conn \<Rightarrow> log_store \<times> conn" where
  "handle_client_V2 U fsqrt now L c =
     (case try_block_V2 U fsqrt now L c of
        (None, L1, c1) \<Rightarrow> (L1, close c1)
      | (Some e, L1, c1) \<Rightarrow> (L1, close (snd (sendall msg_internal c1))))"

section \<open>Auxiliary facts\<close>

subsection \<open>Decoding\<close>

declare str_of_nat.simps [simp del]

lemma utf8_decode_Cons:
  assumes "k = seq_len b - 1"
  shows "utf8_decode (b # bs) =
     (if 0 < seq_len b \<and> k \<le> length bs \<and> list_all is_cont (take k bs)
         \<and> second_ok b (take k bs)
      then map_option (Cons (code_point b (take k bs))) (utf8_decode (drop k bs))
      else None)"
  using assms by (auto simp: Let_def)

declare utf8_decode.simps(2) [simp del]

lemma utf8_decode_single:
  "b < 0x80 \<Longrightarrow> utf8_decode (b # bs) = map_option (Cons (unat b)) (utf8_decode bs)"
  by (simp add: utf8_decode_Cons[OF refl] seq_len_def second_ok_def code_point_def lead_bits_def)

lemma unat_of_char: "unat (of_char ch :: byte) = of_char ch"
proof -
  have "(of_char ch :: byte) = of_nat (of_char ch)" by (simp only: of_nat_of_char)
  then have "unat (of_char ch :: byte) = (of_char ch :: nat) mod 256"
    by (simp only: unat_of_nat) simp
  then show ?thesis by (simp add: of_char_mod_256)
qed

lemma of_char_less_byte:
  "(of_char ch :: nat) < 128 \<Longrightarrow> (of_char ch :: byte) < 0x80"
  by (simp add: word_less_nat_alt unat_of_char)

lemma utf8_decode_octets:
  "list_all (\<lambda>ch. (of_char ch :: nat) < 128) s \<Longrightarrow> utf8_decode (octets s) = Some (ascii s)"
proof (induction s)
  case Nil
  then show ?case by (simp add: octets_def ascii_def)
next
  case (Cons ch s)
  then have "(of_char ch :: byte) < 0x80" by (simp add: of_char_less_byte)
  with Cons show ?case
    by (simp add: octets_def ascii_def utf8_decode_single unat_of_char)
qed

lemma length_octets: "length (octets s) = length s"
  by (simp add: octets_def)

subsection \<open>Stripping\<close>

lemma last_dropWhile: "dropWhile P xs \<noteq> [] \<Longrightarrow> last (dropWhile P xs) = last xs"
  by (induction xs) (auto split: if_splits)

lemma strip_idem: "strip U (strip U s) = strip U s"
proof -
  define P where "P = isspace U"
  define A where "A = dropWhile P s"
  define B where "B = dropWhile P (rev A)"
  have s: "strip U s = rev B" by (simp add: strip_def A_def B_def P_def)
  have 1: "dropWhile P (rev B) = rev B"
  proof (cases "B = []")
    case True
    then show ?thesis by simp
  next
    case False
    then have "A \<noteq> []" by (auto simp: B_def)
    have "last B = last (rev A)" using False unfolding B_def by (rule last_dropWhile)
    also have "\<dots> = hd A" using \<open>A \<noteq> []\<close> by (simp add: last_rev)
    finally have "last B = hd A" .
    moreover have "\<not> P (hd A)" using \<open>A \<noteq> []\<close> unfolding A_def by (rule hd_dropWhile)
    ultimately have "\<not> P (hd (rev B))" using False by (simp add: hd_rev)
    with False show ?thesis by (cases "rev B") auto
  qed
  have 2: "dropWhile P B = B" unfolding B_def by (rule dropWhile_idem)
  have "strip U (rev B) = rev B"
    unfolding strip_def P_def[symmetric] by (simp add: 1 2)
  with s show ?thesis by simp
qed

lemma strip_id:
  assumes "s \<noteq> []" "\<not> isspace U (hd s)" "\<not> isspace U (last s)"
  shows "strip U s = s"
proof -
  have 1: "dropWhile (isspace U) s = s" using assms(1,2) by (cases s) auto
  have 2: "dropWhile (isspace U) (rev s) = rev s"
    using assms(1,3) by (cases "rev s") (auto simp: hd_rev dest: arg_cong[where f=hd])
  show ?thesis by (simp add: strip_def 1 2)
qed

lemma seq_len_cont: "is_cont x \<Longrightarrow> seq_len x = 0"
  by (auto simp: is_cont_def seq_len_def word_le_nat_alt word_less_nat_alt)

lemma utf8_decode_start:
  assumes "utf8_decode w = Some s"
  shows "w = [] \<or> (\<exists>x r. w = x # r \<and> \<not> is_cont x)"
proof (cases w)
  case Nil
  then show ?thesis by simp
next
  case (Cons x r)
  have "\<not> is_cont x"
  proof
    assume "is_cont x"
    then have "seq_len x = 0" by (rule seq_len_cont)
    with assms Cons show False by (simp add: utf8_decode_Cons[OF refl])
  qed
  with Cons show ?thesis by simp
qed

lemma utf8_decode_append:
  assumes w: "utf8_decode w = Some w'"
  shows "utf8_decode (p @ w) =
           (case utf8_decode p of None \<Rightarrow> None | Some p' \<Rightarrow> Some (p' @ w'))"
proof (induction p rule: utf8_decode.induct)
  case 1
  then show ?case by (simp add: w)
next
  case (2 b bs)
  define k where "k = seq_len b - 1"
  note A = utf8_decode_Cons[OF k_def, of bs]
  note B = utf8_decode_Cons[OF k_def, of "bs @ w"]
  show ?case
  proof (cases "k \<le> length bs")
    case True
    then have tk: "take k (bs @ w) = take k bs" and dr: "drop k (bs @ w) = drop k bs @ w"
      by simp_all
    show ?thesis
    proof (cases "0 < seq_len b \<and> list_all is_cont (take k bs) \<and> second_ok b (take k bs)")
      case good: True
      from good True
      have cond: "0 < seq_len b \<and> seq_len b - 1 \<le> length (take (seq_len b - 1) bs)
                    \<and> list_all is_cont (take (seq_len b - 1) bs)
                    \<and> second_ok b (take (seq_len b - 1) bs)"
        unfolding k_def by simp
      have IH: "utf8_decode (drop k bs @ w) =
         (case utf8_decode (drop k bs) of None \<Rightarrow> None | Some p' \<Rightarrow> Some (p' @ w'))"
        using "2.IH"[OF refl refl cond] unfolding k_def .
      have a: "utf8_decode (b # bs) =
                 map_option (Cons (code_point b (take k bs))) (utf8_decode (drop k bs))"
        using good True by (subst A) auto
      have b: "utf8_decode (b # bs @ w) =
                 map_option (Cons (code_point b (take k bs))) (utf8_decode (drop k bs @ w))"
        using good True tk dr by (subst B) auto
      show ?thesis by (simp add: a b IH split: option.splits)
    next
      case bad: False
      have "utf8_decode (b # bs) = None" using bad by (subst A) auto
      moreover have "utf8_decode (b # bs @ w) = None" using bad tk by (subst B) auto
      ultimately show ?thesis by simp
    qed
  next
    case False
    have none: "utf8_decode (b # bs) = None" using False by (subst A) auto
    from w have "w = [] \<or> (\<exists>x r. w = x # r \<and> \<not> is_cont x)" by (rule utf8_decode_start)
    then have "\<not> k \<le> length (bs @ w) \<or> \<not> list_all is_cont (take k (bs @ w))"
    proof
      assume "w = []"
      with False show ?thesis by simp
    next
      assume "\<exists>x r. w = x # r \<and> \<not> is_cont x"
      then obtain x r where xr: "w = x # r" "\<not> is_cont x" by blast
      from False obtain j where j: "k - length bs = Suc j" by (cases "k - length bs") auto
      have "take k (bs @ w) = bs @ x # take j r" using False xr j by simp
      with xr show ?thesis by simp
    qed
    then have "utf8_decode (b # bs @ w) = None" by (subst B) auto
    with none show ?thesis by simp
  qed
qed

lemma set_strip: "set (strip U s) \<subseteq> set s"
  unfolding strip_def
  by (metis set_dropWhileD set_rev subsetI)

lemma strip_pad:
  assumes "list_all (isspace U) w1" "list_all (isspace U) w2"
  shows "strip U (w1 @ s @ w2) = strip U s"
proof -
  have 1: "dropWhile (isspace U) (w1 @ s @ w2) = dropWhile (isspace U) (s @ w2)"
    using assms(1) by (simp add: dropWhile_append2 list_all_iff)
  show ?thesis
  proof (cases "list_all (isspace U) s")
    case True
    have a: "dropWhile (isspace U) (s @ w2) = []"
      using True assms(2) by (simp add: list_all_iff dropWhile_eq_Nil_conv ball_Un)
    have b: "dropWhile (isspace U) s = []"
      using True by (simp add: list_all_iff dropWhile_eq_Nil_conv)
    show ?thesis by (simp add: strip_def 1 a b)
  next
    case False
    then obtain x where "x \<in> set s" "\<not> isspace U x" by (auto simp: list_all_iff)
    then have 2: "dropWhile (isspace U) (s @ w2) = dropWhile (isspace U) s @ w2"
      by (simp add: dropWhile_append1)
    have 3: "dropWhile (isspace U) (rev w2 @ ys) = dropWhile (isspace U) ys" for ys
      by (rule dropWhile_append2) (use assms(2) in \<open>simp add: list_all_iff\<close>)
    show ?thesis by (simp add: strip_def 1 2 3)
  qed
qed

subsection \<open>Paths through the handlers\<close>

lemma handle_client_recv_fails:
  "recv_fails c \<Longrightarrow> handle_client U c = close (snd (sendall msg_internal c))"
  by (simp add: handle_client_def try_block_def recv_def)

lemma handle_client_undecodable:
  assumes "\<not> recv_fails c" "decode (take 1024 (pending c)) = Inl e"
  shows "handle_client U c
           = close (snd (sendall msg_internal (c\<lparr>pending := drop 1024 (pending c)\<rparr>)))"
  using assms by (simp add: handle_client_def try_block_def recv_def)

lemma handle_client_received:
  assumes "\<not> recv_fails c" "\<not> send_fails c" "decode (take 1024 (pending c)) = Inr text"
  shows "handle_client U c =
           c\<lparr>pending := drop 1024 (pending c),
             sent := sent c @
               [if strip U text = [] then msg_no_data
                else if validate_text U (strip U text)
                     then str_of_nat (count_last_character U (strip U text)) @ nl
                     else msg_not_alpha],
             closed := True\<rparr>"
  using assms
  by (simp add: handle_client_def try_block_def recv_def sendall_def close_def Let_def)

lemma find_last_vowel_loop_None:
  "find_last_vowel_loop U xs = None \<longleftrightarrow> set xs \<inter> vowels = {}"
  by (induction xs) auto

lemma find_last_vowel_None: "find_last_vowel U t = None \<longleftrightarrow> set t \<inter> vowels = {}"
  by (simp add: find_last_vowel_def find_last_vowel_loop_None)

lemma handle_client_V2_recv_fails:
  "recv_fails c \<Longrightarrow>
   handle_client_V2 U fsqrt now L c = (L, close (snd (sendall msg_internal c)))"
  by (simp add: handle_client_V2_def try_block_V2_def recv_def)

lemma handle_client_V2_undecodable:
  assumes "\<not> recv_fails c" "decode (take 4096 (pending c)) = Inl e"
  shows "handle_client_V2 U fsqrt now L c
           = (L, close (snd (sendall msg_internal (c\<lparr>pending := drop 4096 (pending c)\<rparr>))))"
  using assms by (simp add: handle_client_V2_def try_block_V2_def recv_def)

lemma reply_then_close:
  "(case reply_only L (sendall msg c) of
      (None, L1, c1) \<Rightarrow> (L1, close c1)
    | (Some e, L1, c1) \<Rightarrow> (L1, close (snd (sendall msg_internal c1))))
   = (L, close (snd (sendall msg c)))"
  by (simp add: reply_only_def sendall_def)

lemma recv_ok:
  "\<not> recv_fails c \<Longrightarrow>
   recv n c = Inr (take n (pending c), c\<lparr>pending := drop n (pending c)\<rparr>)"
  by (simp add: recv_def)

lemma handle_client_V2_no_data:
  assumes "\<not> recv_fails c" "decode (take 4096 (pending c)) = Inr text"
    and "strip U text = []"
  shows "handle_client_V2 U fsqrt now L c
           = (L, close (snd (sendall msg_no_data (c\<lparr>pending := drop 4096 (pending c)\<rparr>))))"
  using assms(2,3)
  by (simp add: handle_client_V2_def try_block_V2_def recv_ok[OF assms(1)] reply_then_close)

lemma handle_client_V2_not_letters:
  assumes "\<not> recv_fails c" "decode (take 4096 (pending c)) = Inr text"
    and "strip U text \<noteq> []" "\<not> validate_text_V2 U (strip U text)"
  shows "handle_client_V2 U fsqrt now L c
           = (L, close (snd (sendall msg_not_letters (c\<lparr>pending := drop 4096 (pending c)\<rparr>))))"
  using assms(2-)
  by (simp add: handle_client_V2_def try_block_V2_def recv_ok[OF assms(1)] reply_then_close)

lemma handle_client_V2_no_vowel:
  assumes "\<not> recv_fails c" "decode (take 4096 (pending c)) = Inr text"
    and "strip U text \<noteq> []" "validate_text_V2 U (strip U text)"
    and "find_last_vowel U (strip U text) = None \<or> find_last_vowel U (strip U text) = Some []"
  shows "handle_client_V2 U fsqrt now L c
           = (L, close (snd (sendall msg_no_vowel (c\<lparr>pending := drop 4096 (pending c)\<rparr>))))"
  using assms(2-)
  by (auto simp add: handle_client_V2_def try_block_V2_def recv_ok[OF assms(1)]
        reply_then_close strip_idem)

lemma handle_client_V2_overflow:
  assumes "\<not> recv_fails c" "decode (take 4096 (pending c)) = Inr text"
    and "strip U text \<noteq> []" "validate_text_V2 U (strip U text)"
    and "find_last_vowel U (strip U text) = Some v" "v \<noteq> []"
    and "is_prime fsqrt (int (count_vowel_occurrences U (strip U text) (Some v))) = Inl e"
  shows "handle_client_V2 U fsqrt now L c
           = (L, close (snd (sendall msg_internal (c\<lparr>pending := drop 4096 (pending c)\<rparr>))))"
  using assms(2-)
  by (simp add: handle_client_V2_def try_block_V2_def recv_ok[OF assms(1)] strip_idem)

lemma handle_client_V2_count:
  assumes "\<not> recv_fails c" "decode (take 4096 (pending c)) = Inr text"
    and "strip U text \<noteq> []" "validate_text_V2 U (strip U text)"
    and "find_last_vowel U (strip U text) = Some v" "v \<noteq> []"
    and "is_prime fsqrt (int (count_vowel_occurrences U (strip U text) (Some v))) = Inr p"
  shows "handle_client_V2 U fsqrt now L c
           = (save_to_log now (strip U text)
                (count_vowel_occurrences U (strip U text) (Some v))
                (if p then ascii ''SI'' else ascii ''NO'') v L,
              close (snd (sendall
                (str_of_nat (count_vowel_occurrences U (strip U text) (Some v)) @ nl)
                (c\<lparr>pending := drop 4096 (pending c)\<rparr>))))"
  using assms(2-)
  by (simp add: handle_client_V2_def try_block_V2_def recv_ok[OF assms(1)] strip_idem
        reply_then_close Let_def)

lemma try_block_V2_count:
  assumes "\<not> recv_fails c" "decode (take 4096 (pending c)) = Inr text"
    and "strip U text \<noteq> []" "validate_text_V2 U (strip U text)"
    and "find_last_vowel U (strip U text) = Some v" "v \<noteq> []"
    and "is_prime fsqrt (int (count_vowel_occurrences U (strip U text) (Some v))) = Inr p"
  shows "try_block_V2 U fsqrt now L c
           = reply_only
               (save_to_log now (strip U text)
                  (count_vowel_occurrences U (strip U text) (Some v))
                  (if p then ascii ''SI'' else ascii ''NO'') v L)
               (sendall
                  (str_of_nat (count_vowel_occurrences U (strip U text) (Some v)) @ nl)
                  (c\<lparr>pending := drop 4096 (pending c)\<rparr>))"
  using assms(2-)
  by (simp add: try_block_V2_def recv_ok[OF assms(1)] strip_idem Let_def)

subsection \<open>Writing the log\<close>

lemma write_all_None:
  "room L = None \<Longrightarrow> write_all ls L = L\<lparr>content := content L @ concat ls\<rparr>"
  by (induction ls arbitrary: L) (simp_all add: f_write_def)

lemma write_all_Some:
  "room L = Some r \<Longrightarrow>
   write_all ls L
     = L\<lparr>content := content L @ take r (concat ls), room := Some (r - length (concat ls))\<rparr>"
proof (induction ls arbitrary: L r)
  case Nil
  then show ?case by (cases L) simp
next
  case (Cons s ss)
  show ?case
  proof (cases "length s \<le> r")
    case False
    with Cons.prems show ?thesis by (simp add: f_write_def)
  next
    case True
    let ?L1 = "L\<lparr>content := content L @ s, room := Some (r - length s)\<rparr>"
    have "room ?L1 = Some (r - length s)" by simp
    from Cons.IH[OF this] Cons.prems True show ?thesis by (simp add: f_write_def)
  qed
qed

lemma save_to_log_cases:
  "open_fails L \<Longrightarrow> save_to_log ts m n p v L = L"
  "\<not> open_fails L \<Longrightarrow> room L = None \<Longrightarrow>
     save_to_log ts m n p v L = L\<lparr>content := content L @ log_record ts m n p v\<rparr>"
  "\<not> open_fails L \<Longrightarrow> room L = Some r \<Longrightarrow> length (log_record ts m n p v) \<le> r \<Longrightarrow>
     save_to_log ts m n p v L
       = L\<lparr>content := content L @ log_record ts m n p v,
           room := Some (r - length (log_record ts m n p v))\<rparr>"
  "\<not> open_fails L \<Longrightarrow> room L = Some r \<Longrightarrow> r < length (log_record ts m n p v) \<Longrightarrow>
     save_to_log ts m n p v L
       = L\<lparr>content := content L @ take r (log_record ts m n p v), room := Some 0\<rparr>"
  by (simp_all add: save_to_log_def write_all_None write_all_Some log_record_def)

lemma handle_client_received_any:
  assumes "\<not> recv_fails c" "decode (take 1024 (pending c)) = Inr text"
  shows "handle_client U c =
           close (snd (sendall
             (if strip U text = [] then msg_no_data
              else if validate_text U (strip U text)
                   then str_of_nat (count_last_character U (strip U text)) @ nl
                   else msg_not_alpha)
             (c\<lparr>pending := drop 1024 (pending c)\<rparr>)))"
  using assms
  by (simp add: handle_client_def try_block_def recv_def sendall_def close_def Let_def)

lemma handle_client_V2_same:
  assumes "\<not> recv_fails c" "\<not> recv_fails c'"
    and "decode (take 4096 (pending c)) = Inr t" "decode (take 4096 (pending c')) = Inr t'"
    and "strip U t' = strip U t"
    and "c'\<lparr>pending := drop 4096 (pending c')\<rparr> = c\<lparr>pending := drop 4096 (pending c)\<rparr>"
  shows "handle_client_V2 U fsqrt now L c' = handle_client_V2 U fsqrt now L c"
  by (simp add: handle_client_V2_def try_block_V2_def recv_ok assms)

lemma utf8_decode_prefix:
  "utf8_decode a = Some a' \<Longrightarrow> utf8_decode (a @ x) = map_option ((@) a') (utf8_decode x)"
proof (induction a arbitrary: a' rule: utf8_decode.induct)
  case 1
  then show ?case by (simp add: option.map_ident)
next
  case (2 b bs)
  define k where "k = seq_len b - 1"
  note A = utf8_decode_Cons[OF k_def, of bs]
  note B = utf8_decode_Cons[OF k_def, of "bs @ x"]
  from "2.prems" have good: "0 < seq_len b" "k \<le> length bs" "list_all is_cont (take k bs)"
      "second_ok b (take k bs)"
    and rest: "map_option (Cons (code_point b (take k bs))) (utf8_decode (drop k bs)) = Some a'"
    unfolding A by (simp_all split: if_splits)
  from rest obtain r where r: "utf8_decode (drop k bs) = Some r"
    and a': "a' = code_point b (take k bs) # r" by auto
  from good have cond: "0 < seq_len b \<and> seq_len b - 1 \<le> length (take (seq_len b - 1) bs)
                    \<and> list_all is_cont (take (seq_len b - 1) bs)
                    \<and> second_ok b (take (seq_len b - 1) bs)"
    unfolding k_def by simp
  have IH: "utf8_decode (drop k bs @ x) = map_option ((@) r) (utf8_decode x)"
    using "2.IH"[OF refl refl cond] r unfolding k_def by simp
  from good have tk: "take k (bs @ x) = take k bs" and dr: "drop k (bs @ x) = drop k bs @ x"
    by simp_all
  have "utf8_decode (b # bs @ x)
          = map_option (Cons (code_point b (take k bs))) (utf8_decode (drop k bs @ x))"
    using good tk dr by (subst B) auto
  then show ?case by (simp add: IH a' option.map_comp comp_def)
qed

lemma decode_padded:
  assumes "utf8_decode w1 = Some s1" "utf8_decode w2 = Some s2"
  shows "decode (w1 @ p @ w2) = (case decode p of Inl e \<Rightarrow> Inl e | Inr t \<Rightarrow> Inr (s1 @ t @ s2))"
proof -
  have "utf8_decode (w1 @ p @ w2) = map_option ((@) s1) (utf8_decode (p @ w2))"
    using assms(1) by (rule utf8_decode_prefix)
  also have "utf8_decode (p @ w2)
               = (case utf8_decode p of None \<Rightarrow> None | Some t \<Rightarrow> Some (t @ s2))"
    using assms(2) by (rule utf8_decode_append)
  finally show ?thesis by (simp add: decode_def split: option.splits)
qed

subsection \<open>Evaluating the scenarios\<close>

lemmas py_tables =
  py_ucd_def py_isspace_def py_isalpha_def is_upper_latin_def is_lower_latin_def
  py_lower_def py_lower_cp_def ascii_def

lemma client_simps:
  "pending (client bs) = bs" "\<not> recv_fails (client bs)" "\<not> send_fails (client bs)"
  "sent (client bs) = []"
  by (simp_all add: client_def)

lemma decode_client:
  assumes "list_all (\<lambda>ch. (of_char ch :: nat) < 128) s" "length s \<le> n"
  shows "decode (take n (pending (client (octets s)))) = Inr (ascii s)"
  using assms by (simp add: client_simps length_octets decode_def utf8_decode_octets)

lemma replied:
  "length bs \<le> n \<Longrightarrow>
   client bs\<lparr>pending := drop n (pending (client bs)), sent := sent (client bs) @ [m],
     closed := True\<rparr>
   = \<lparr>pending = [], recv_fails = False, send_fails = False, sent = [m], closed = True\<rparr>"
  by (simp add: client_def)

lemma reconocer_facts:
  "ascii ''reconocer'' \<noteq> []"
  "strip py_ucd (ascii ''reconocer'') = ascii ''reconocer''"
  "validate_text py_ucd (ascii ''reconocer'')"
  "count_last_character py_ucd (ascii ''reconocer'') = 2"
  "lower py_ucd [last (ascii ''reconocer'')] = ascii ''r''"
  by (simp_all add: strip_def validate_text_def count_last_character_def py_tables)

lemma reconocer_handled:
  "handle_client py_ucd (client (octets ''reconocer''))
     = \<lparr>pending = [], recv_fails = False, send_fails = False,
        sent = [ascii ''2'' @ nl], closed = True\<rparr>"
proof -
  have d: "decode (take 1024 (pending (client (octets ''reconocer'')))) = Inr (ascii ''reconocer'')"
    by (rule decode_client) simp_all
  have t: "str_of_nat 2 = ascii ''2''" by (simp add: str_of_nat.simps ascii_def)
  show ?thesis
    by (simp add: handle_client_received[OF client_simps(2,3) d] reconocer_facts t replied
          length_octets)
qed

lemma hello_world_facts:
  "ascii ''hello world'' \<noteq> []" "ascii ''o'' \<noteq> []"
  "strip py_ucd (ascii ''hello world'') = ascii ''hello world''"
  "\<not> validate_text py_ucd (ascii ''hello world'')"
  "validate_text_V2 py_ucd (ascii ''hello world'')"
  "find_last_vowel py_ucd (ascii ''hello world'') = Some (ascii ''o'')"
  "count_vowel_occurrences py_ucd (ascii ''hello world'') (Some (ascii ''o'')) = 2"
  by (simp_all add: strip_def validate_text_def validate_text_V2_def find_last_vowel_def
        vowels_def count_vowel_occurrences_def py_tables)

lemma spaces_facts:
  "list_all (\<lambda>ch. (of_char ch :: nat) < 128) ''  ''"
  "list_all (isspace py_ucd) (ascii ''  '')"
  "\<forall>ch\<in>set (ascii ''  ''). isalpha py_ucd ch \<or> isspace py_ucd ch"
  "strip py_ucd (ascii ''  '') = []"
  by (simp_all add: strip_def py_tables)

lemma xyz_facts:
  "validate_text_V2 py_ucd (ascii ''xyz'')"
  "strip py_ucd (ascii ''xyz'') \<noteq> []"
  "set (ascii ''xyz'') \<inter> vowels = {}"
  by (simp_all add: validate_text_V2_def strip_def vowels_def py_tables)

lemma utf8_decode_run: "utf8_decode (replicate n 0x61) = Some (replicate n 97)"
  by (induction n) (simp_all add: utf8_decode_single)

lemma run_facts:
  assumes "0 < n"
  shows "replicate n (97::nat) \<noteq> []"
    and "strip py_ucd (replicate n 97) = replicate n 97"
    and "strip py_ucd (32 # replicate n 97) = replicate n 97"
    and "validate_text py_ucd (replicate n 97)"
    and "count_last_character py_ucd (replicate n 97) = n"
  using assms
  by (simp_all add: strip_def validate_text_def count_last_character_def list_all_iff
        filter_replicate py_ucd_def py_isspace_def py_isalpha_def is_upper_latin_def
        is_lower_latin_def py_lower_def py_lower_cp_def)

lemma hola_facts:
  "ascii ''hola'' \<noteq> []" "ascii ''a'' \<noteq> []"
  "strip py_ucd (ascii ''hola'') = ascii ''hola''"
  "validate_text_V2 py_ucd (ascii ''hola'')"
  "find_last_vowel py_ucd (ascii ''hola'') = Some (ascii ''a'')"
  "count_vowel_occurrences py_ucd (ascii ''hola'') (Some (ascii ''a'')) = 1"
  "is_prime fsqrt 1 = Inr False"
  by (simp_all add: strip_def validate_text_V2_def find_last_vowel_def
        vowels_def count_vowel_occurrences_def is_prime_def py_tables)

subsection \<open>Trial division\<close>






lemma count_convertible: "n \<le> 8192 \<Longrightarrow> n < float_limit"
proof -
  assume a: "n \<le> 8192"
  have "(2::int) ^ 1024 = 2 ^ Suc 1023" by simp
  then have b: "(2::int) ^ 1024 = 2 * 2 ^ 1023" by (simp only: power_Suc)
  have c: "(2::int) ^ 970 \<le> 2 ^ 1023" by (rule power_increasing) simp_all
  have "(2::int) ^ 14 \<le> 2 ^ 1023" by (rule power_increasing) simp_all
  moreover have "(2::int) ^ 14 = 16384" by simp
  ultimately have "(16384::int) \<le> 2 ^ 1023" by simp
  with a b c show ?thesis unfolding float_limit_def by linarith
qed

subsection \<open>The counts that reach the primality check\<close>

text \<open>
  One read gives at most 4096 octets, hence at most 4096 code points, and lowercasing
  with the tables above at most doubles the length. So every count that the handler
  passes to \<open>is_prime\<close> converts to a double, and \<open>is_prime\<close> returns a verdict on it.
\<close>

lemma length_utf8_decode: "utf8_decode bs = Some s \<Longrightarrow> length s \<le> length bs"
proof (induction "length bs" arbitrary: bs s rule: less_induct)
  case less
  show ?case
  proof (cases bs)
    case Nil
    with less.prems show ?thesis by simp
  next
    case (Cons b bs')
    define k where "k = seq_len b - 1"
    from less.prems Cons obtain s' where s': "utf8_decode (drop k bs') = Some s'"
      and s: "s = code_point b (take k bs') # s'"
      by (auto simp: utf8_decode_Cons[OF k_def] split: if_splits)
    have "length (drop k bs') < length bs" using Cons by simp
    from less.hyps[OF this s'] have "length s' \<le> length bs'" by simp
    with s Cons show ?thesis by simp
  qed
qed

lemma length_py_lower: "length (py_lower s) \<le> 2 * length s"
  by (induction s) (simp_all add: py_lower_def py_lower_cp_def)

lemma length_strip: "length (strip U s) \<le> length s"
proof -
  have "length (strip U s) \<le> length (dropWhile (isspace U) s)"
    unfolding strip_def using length_dropWhile_le[of "isspace U" "rev (dropWhile (isspace U) s)"]
    by simp
  also have "\<dots> \<le> length s" by (rule length_dropWhile_le)
  finally show ?thesis .
qed

lemma count_vowel_occurrences_le:
  "count_vowel_occurrences U text vowel \<le> length (lower U text)"
  by (cases vowel) (simp_all add: count_vowel_occurrences_def)

lemma is_prime_returns: "n < float_limit \<Longrightarrow> \<exists>p. is_prime fsqrt n = Inr p"
  by (auto simp: is_prime_def int_pow_half_def)

lemma handler_count_convertible:
  assumes "decode (take 4096 bs) = Inr text"
  shows "int (count_vowel_occurrences py_ucd (strip py_ucd text) vowel) < float_limit"
proof -
  from assms have "utf8_decode (take 4096 bs) = Some text"
    by (simp add: decode_def split: option.splits)
  then have "length text \<le> length (take 4096 bs)" by (rule length_utf8_decode)
  then have "length text \<le> 4096" by simp
  moreover have "length (strip py_ucd text) \<le> length text" by (rule length_strip)
  moreover have "length (lower py_ucd (strip py_ucd text)) \<le> 2 * length (strip py_ucd text)"
    by (simp add: py_ucd_def length_py_lower)
  moreover note count_vowel_occurrences_le[of py_ucd "strip py_ucd text" vowel]
  ultimately have "int (count_vowel_occurrences py_ucd (strip py_ucd text) vowel) \<le> 8192"
    by linarith
  then show ?thesis by (rule count_convertible)
qed

lemma handler_count_verdict:
  assumes "decode (take 4096 bs) = Inr text"
  shows "\<exists>p. is_prime fsqrt (int (count_vowel_occurrences py_ucd (strip py_ucd text) vowel))
               = Inr p"
  using handler_count_convertible[OF assms] by (rule is_prime_returns)

section \<open>Properties\<close>

text \<open>
  C1. A non-empty alphabetic message need not get a reply of at least 1. The message
  U+0130 (octets C4 B0) is a letter; its lowercase form is the two code points U+0069
  U+0307, which \<open>count_last_character\<close> compares as one string with each single
  character of the lowercased message. Nothing matches, and the reply is 0.
\<close>

theorem dotted_capital_I_reply:
  "utf8_decode [0xC4, 0xB0] = Some [0x130]
   \<and> validate_text py_ucd [0x130]
   \<and> count_last_character py_ucd [0x130] = 0
   \<and> handle_client py_ucd (client [0xC4, 0xB0])
       = \<lparr>pending = [], recv_fails = False, send_fails = False,
          sent = [ascii ''0'' @ nl], closed = True\<rparr>"
proof -
  have u: "utf8_decode [0xC4, 0xB0] = Some [0x130]"
    by (simp add: utf8_decode_Cons[OF refl] seq_len_def second_ok_def code_point_def
          lead_bits_def is_cont_def cont_bits_def)
  then have d: "decode (take 1024 (pending (client [0xC4, 0xB0]))) = Inr [0x130]"
    by (simp add: client_simps decode_def)
  have s: "strip py_ucd [0x130] = [0x130]" by (simp add: strip_def py_tables)
  have v: "validate_text py_ucd [0x130]" by (simp add: validate_text_def py_tables)
  have n: "count_last_character py_ucd [0x130] = 0"
    by (simp add: count_last_character_def py_tables)
  have t: "str_of_nat 0 = ascii ''0''" by (simp add: str_of_nat.simps ascii_def)
  have h: "handle_client py_ucd (client [0xC4, 0xB0])
       = \<lparr>pending = [], recv_fails = False, send_fails = False,
          sent = [ascii ''0'' @ nl], closed = True\<rparr>"
    by (simp add: handle_client_received[OF client_simps(2,3) d] s v n t replied)
  from u v n h show ?thesis by simp
qed

text \<open>
  C2. \<open>validate_text\<close> of the last-vowel server accepts the empty string: the claim that
  it is true only when the trimmed text is non-empty fails there.
\<close>

theorem validate_text_V2_empty:
  "validate_text_V2 py_ucd [] \<and> strip py_ucd [] = []"
  by (simp add: validate_text_V2_def strip_def)

text \<open>
  C2, as the code has it. \<open>validate_text\<close> is true exactly when every character is
  alphabetic or white space, so it is true of the empty string and of every string of
  white space only. It is the handler that turns away a message that is empty once
  stripped, before it validates anything, with the no-data reply.
\<close>

theorem validate_text_V2_chars:
  "(validate_text_V2 U text \<longleftrightarrow> (\<forall>ch\<in>set text. isalpha U ch \<or> isspace U ch))
   \<and> (list_all (isspace U) text \<longrightarrow> validate_text_V2 U text)
   \<and> (\<not> recv_fails c \<and> decode (take 4096 (pending c)) = Inr text \<and> strip U text = []
        \<longrightarrow> handle_client_V2 U fsqrt now L c
              = (L, close (snd (sendall msg_no_data (c\<lparr>pending := drop 4096 (pending c)\<rparr>)))))"
proof (intro conjI impI)
  show "validate_text_V2 U text \<longleftrightarrow> (\<forall>ch\<in>set text. isalpha U ch \<or> isspace U ch)"
    by (simp add: validate_text_V2_def list_all_iff)
  show "validate_text_V2 U text" if "list_all (isspace U) text"
    using that by (simp add: validate_text_V2_def list_all_iff)
  show "handle_client_V2 U fsqrt now L c
          = (L, close (snd (sendall msg_no_data (c\<lparr>pending := drop 4096 (pending c)\<rparr>))))"
    if "\<not> recv_fails c \<and> decode (take 4096 (pending c)) = Inr text \<and> strip U text = []"
    using that by (simp add: handle_client_V2_no_data)
qed

theorem validate_text_V2_chars_witness:
  "validate_text_V2 py_ucd (ascii ''  '')
   \<and> handle_client_V2 py_ucd isqrt [] \<lparr>content = [], open_fails = False, room = None\<rparr> (client (octets ''  ''))
       = (\<lparr>content = [], open_fails = False, room = None\<rparr>,
          \<lparr>pending = [], recv_fails = False, send_fails = False,
           sent = [msg_no_data], closed = True\<rparr>)"
proof -
  have d: "decode (take 4096 (pending (client (octets ''  '')))) = Inr (ascii ''  '')"
    by (rule decode_client) simp_all
  show ?thesis
    using validate_text_V2_chars[of py_ucd "ascii ''  ''" "client (octets ''  '')" isqrt "[]"
        "\<lparr>content = [], open_fails = False, room = None\<rparr>"] d
    by (simp add: spaces_facts client_simps sendall_def close_def client_def length_octets)
qed

text \<open>
  C3. The log does not always gain exactly one record for a successfully analysed
  message, nor is it always untouched when the handler ends in its internal-error
  branch. For the message \<open>hola\<close>: when the log file cannot be opened, nothing is
  written and the client still gets the count; when only 30 characters can be stored,
  the log is left with the first 30 characters of the record, and the client still gets
  the count; and when
  the reply cannot be sent, the \<open>try\<close> block raises (the internal-error branch) after
  the complete record has been written.
\<close>

theorem log_record_divergences:
  "handle_client_V2 py_ucd isqrt (ascii ''2024-05-01 10:00:00'')
      \<lparr>content = [], open_fails = True, room = None\<rparr> (client (octets ''hola''))
     = (\<lparr>content = [], open_fails = True, room = None\<rparr>,
        \<lparr>pending = [], recv_fails = False, send_fails = False,
         sent = [ascii ''1'' @ nl], closed = True\<rparr>)
   \<and> handle_client_V2 py_ucd isqrt (ascii ''2024-05-01 10:00:00'')
      \<lparr>content = [], open_fails = False, room = Some 30\<rparr> (client (octets ''hola''))
     = (\<lparr>content = ascii ''Fecha: 2024-05-01 10:00:00'' @ nl @ ascii ''Men'',
         open_fails = False, room = Some 0\<rparr>,
        \<lparr>pending = [], recv_fails = False, send_fails = False,
         sent = [ascii ''1'' @ nl], closed = True\<rparr>)
   \<and> fst (try_block_V2 py_ucd isqrt (ascii ''2024-05-01 10:00:00'')
        \<lparr>content = [], open_fails = False, room = None\<rparr>
        \<lparr>pending = octets ''hola'', recv_fails = False, send_fails = True, sent = [],
         closed = False\<rparr>)
     = Some OSError
   \<and> handle_client_V2 py_ucd isqrt (ascii ''2024-05-01 10:00:00'')
        \<lparr>content = [], open_fails = False, room = None\<rparr>
        \<lparr>pending = octets ''hola'', recv_fails = False, send_fails = True, sent = [],
         closed = False\<rparr>
     = (\<lparr>content = log_record (ascii ''2024-05-01 10:00:00'') (ascii ''hola'') 1 (ascii ''NO'')
                     (ascii ''a''),
         open_fails = False, room = None\<rparr>,
        \<lparr>pending = [], recv_fails = False, send_fails = True, sent = [], closed = True\<rparr>)"
proof -
  let ?ts = "ascii ''2024-05-01 10:00:00''"
  let ?c = "\<lparr>pending = octets ''hola'', recv_fails = False, send_fails = True, sent = [],
             closed = False\<rparr>"
  have d: "decode (take 4096 (pending (client (octets ''hola'')))) = Inr (ascii ''hola'')"
    by (rule decode_client) simp_all
  have d': "decode (take 4096 (pending ?c)) = Inr (ascii ''hola'')"
    using d by (simp add: client_def)
  have r': "\<not> recv_fails ?c" by simp
  have t: "str_of_nat (Suc 0) = ascii ''1''" by (simp add: str_of_nat.simps ascii_def)
  note h = handle_client_V2_count[OF client_simps(2) d, of py_ucd "ascii ''a''" isqrt False ?ts]
  note h' = handle_client_V2_count[OF r' d', of py_ucd "ascii ''a''" isqrt False ?ts]
  note b' = try_block_V2_count[OF r' d', of py_ucd "ascii ''a''" isqrt False ?ts]
  have 1: "handle_client_V2 py_ucd isqrt ?ts
      \<lparr>content = [], open_fails = True, room = None\<rparr> (client (octets ''hola''))
     = (\<lparr>content = [], open_fails = True, room = None\<rparr>,
        \<lparr>pending = [], recv_fails = False, send_fails = False,
         sent = [ascii ''1'' @ nl], closed = True\<rparr>)"
    using h[of "\<lparr>content = [], open_fails = True, room = None\<rparr>"]
    by (simp add: hola_facts t save_to_log_def sendall_def close_def client_def length_octets)
  have l2: "30 < length (log_record ?ts (ascii ''hola'') (Suc 0) (ascii ''NO'') (ascii ''a''))"
    "take 30 (log_record ?ts (ascii ''hola'') (Suc 0) (ascii ''NO'') (ascii ''a''))
       = ascii ''Fecha: 2024-05-01 10:00:00'' @ nl @ ascii ''Men''"
    by (simp_all add: log_record_def log_lines_def ascii_def nl_def)
  have 2: "handle_client_V2 py_ucd isqrt ?ts
      \<lparr>content = [], open_fails = False, room = Some 30\<rparr> (client (octets ''hola''))
     = (\<lparr>content = ascii ''Fecha: 2024-05-01 10:00:00'' @ nl @ ascii ''Men'',
         open_fails = False, room = Some 0\<rparr>,
        \<lparr>pending = [], recv_fails = False, send_fails = False,
         sent = [ascii ''1'' @ nl], closed = True\<rparr>)"
    using h[of "\<lparr>content = [], open_fails = False, room = Some 30\<rparr>"]
    by (simp add: hola_facts t save_to_log_cases l2 sendall_def close_def client_def
          length_octets)
  have 3: "fst (try_block_V2 py_ucd isqrt ?ts
        \<lparr>content = [], open_fails = False, room = None\<rparr> ?c) = Some OSError"
    using b'[of "\<lparr>content = [], open_fails = False, room = None\<rparr>"]
    by (simp add: hola_facts reply_only_def sendall_def)
  have 4: "handle_client_V2 py_ucd isqrt ?ts
        \<lparr>content = [], open_fails = False, room = None\<rparr> ?c
     = (\<lparr>content = log_record ?ts (ascii ''hola'') 1 (ascii ''NO'') (ascii ''a''),
         open_fails = False, room = None\<rparr>,
        \<lparr>pending = [], recv_fails = False, send_fails = True, sent = [], closed = True\<rparr>)"
    using h'[of "\<lparr>content = [], open_fails = False, room = None\<rparr>"]
    by (simp add: hola_facts save_to_log_cases sendall_def close_def length_octets)
  from 1 2 3 4 show ?thesis by simp
qed

text \<open>
  C3, as the code has it. Let the message be received and decoded, not empty once
  stripped, of letters and white space only, with a vowel, and let the primality check
  return. Then the handler sends the count as its reply whatever happens to the log. It
  appends exactly one record when the log file can be opened and the six writes succeed,
  also when the reply then cannot be sent. A failure to write the log is caught: when the
  file cannot be opened the log is left as it was, and when a write fails the log keeps
  the part of the record that was stored before the failure. On the paths that end before the log is written (the
  receive fails, the octets are not UTF-8, the message is empty or blank, has another
  character, has no vowel, or the primality check raises) the log is left as it was.
\<close>

theorem log_record_per_message:
  "(\<not> recv_fails c \<and> decode (take 4096 (pending c)) = Inr text
      \<and> strip U text \<noteq> [] \<and> validate_text_V2 U (strip U text)
      \<and> find_last_vowel U (strip U text) = Some v \<and> v \<noteq> []
      \<and> count_vowel_occurrences U (strip U text) (Some v) = n
      \<and> is_prime fsqrt (int n) = Inr p
      \<and> log_record now (strip U text) n (if p then ascii ''SI'' else ascii ''NO'') v = rec
     \<longrightarrow> snd (handle_client_V2 U fsqrt now L c)
           = close (snd (sendall (str_of_nat n @ nl) (c\<lparr>pending := drop 4096 (pending c)\<rparr>)))
         \<and> (\<not> send_fails c \<longrightarrow>
              sent (snd (handle_client_V2 U fsqrt now L c)) = sent c @ [str_of_nat n @ nl])
         \<and> (\<not> open_fails L \<and> room L = None \<longrightarrow>
              fst (handle_client_V2 U fsqrt now L c) = L\<lparr>content := content L @ rec\<rparr>)
         \<and> (\<not> open_fails L \<and> room L = Some r \<and> length rec \<le> r \<longrightarrow>
              fst (handle_client_V2 U fsqrt now L c)
                = L\<lparr>content := content L @ rec, room := Some (r - length rec)\<rparr>)
         \<and> (open_fails L \<longrightarrow> fst (handle_client_V2 U fsqrt now L c) = L)
         \<and> (\<not> open_fails L \<and> room L = Some r \<and> r < length rec \<longrightarrow>
              fst (handle_client_V2 U fsqrt now L c)
                = L\<lparr>content := content L @ take r rec, room := Some 0\<rparr>))
   \<and> (recv_fails c \<or> decode (take 4096 (pending c)) = Inl e
      \<or> (decode (take 4096 (pending c)) = Inr text
          \<and> (strip U text = [] \<or> \<not> validate_text_V2 U (strip U text)
             \<or> find_last_vowel U (strip U text) = None
             \<or> find_last_vowel U (strip U text) = Some []
             \<or> (find_last_vowel U (strip U text) = Some v
                 \<and> is_prime fsqrt (int (count_vowel_occurrences U (strip U text) (Some v)))
                     = Inl e')))
     \<longrightarrow> fst (handle_client_V2 U fsqrt now L c) = L)"
proof (rule conjI; rule impI)
  assume s: "\<not> recv_fails c \<and> decode (take 4096 (pending c)) = Inr text
      \<and> strip U text \<noteq> [] \<and> validate_text_V2 U (strip U text)
      \<and> find_last_vowel U (strip U text) = Some v \<and> v \<noteq> []
      \<and> count_vowel_occurrences U (strip U text) (Some v) = n
      \<and> is_prime fsqrt (int n) = Inr p
      \<and> log_record now (strip U text) n (if p then ascii ''SI'' else ascii ''NO'') v = rec"
  then have p: "is_prime fsqrt (int (count_vowel_occurrences U (strip U text) (Some v))) = Inr p"
    by simp
  from s have r: "\<not> recv_fails c" and d: "decode (take 4096 (pending c)) = Inr text"
    and ne: "strip U text \<noteq> []" and val: "validate_text_V2 U (strip U text)"
    and fv: "find_last_vowel U (strip U text) = Some v" and vne: "v \<noteq> []"
    and n: "count_vowel_occurrences U (strip U text) (Some v) = n"
    and rec: "log_record now (strip U text) n (if p then ascii ''SI'' else ascii ''NO'') v = rec"
    by simp_all
  note h = handle_client_V2_count[OF r d ne val fv vne p, of now L, unfolded n]
  show "snd (handle_client_V2 U fsqrt now L c)
           = close (snd (sendall (str_of_nat n @ nl) (c\<lparr>pending := drop 4096 (pending c)\<rparr>)))
         \<and> (\<not> send_fails c \<longrightarrow>
              sent (snd (handle_client_V2 U fsqrt now L c)) = sent c @ [str_of_nat n @ nl])
         \<and> (\<not> open_fails L \<and> room L = None \<longrightarrow>
              fst (handle_client_V2 U fsqrt now L c) = L\<lparr>content := content L @ rec\<rparr>)
         \<and> (\<not> open_fails L \<and> room L = Some r \<and> length rec \<le> r \<longrightarrow>
              fst (handle_client_V2 U fsqrt now L c)
                = L\<lparr>content := content L @ rec, room := Some (r - length rec)\<rparr>)
         \<and> (open_fails L \<longrightarrow> fst (handle_client_V2 U fsqrt now L c) = L)
         \<and> (\<not> open_fails L \<and> room L = Some r \<and> r < length rec \<longrightarrow>
              fst (handle_client_V2 U fsqrt now L c)
                = L\<lparr>content := content L @ take r rec, room := Some 0\<rparr>)"
    unfolding h rec[symmetric] by (simp add: save_to_log_cases sendall_def close_def)
next
  assume f: "recv_fails c \<or> decode (take 4096 (pending c)) = Inl e
      \<or> (decode (take 4096 (pending c)) = Inr text
          \<and> (strip U text = [] \<or> \<not> validate_text_V2 U (strip U text)
             \<or> find_last_vowel U (strip U text) = None
             \<or> find_last_vowel U (strip U text) = Some []
             \<or> (find_last_vowel U (strip U text) = Some v
                 \<and> is_prime fsqrt (int (count_vowel_occurrences U (strip U text) (Some v)))
                     = Inl e')))"
  show "fst (handle_client_V2 U fsqrt now L c) = L"
  proof (cases "recv_fails c")
    case True
    then show ?thesis by (simp add: handle_client_V2_recv_fails)
  next
    case r: False
    show ?thesis
    proof (cases "decode (take 4096 (pending c))")
      case (Inl x)
      with r show ?thesis by (simp add: handle_client_V2_undecodable)
    next
      case (Inr t)
      with f r have t: "t = text" and
        g: "strip U text = [] \<or> \<not> validate_text_V2 U (strip U text)
           \<or> find_last_vowel U (strip U text) = None
           \<or> find_last_vowel U (strip U text) = Some []
           \<or> (find_last_vowel U (strip U text) = Some v
               \<and> is_prime fsqrt (int (count_vowel_occurrences U (strip U text) (Some v)))
                   = Inl e')"
        by auto
      note d = Inr[unfolded t]
      consider (empty) "strip U text = []"
        | (invalid) "strip U text \<noteq> []" "\<not> validate_text_V2 U (strip U text)"
        | (novowel) "strip U text \<noteq> []" "validate_text_V2 U (strip U text)"
            "find_last_vowel U (strip U text) = None
             \<or> find_last_vowel U (strip U text) = Some []"
        | (raised) "strip U text \<noteq> []" "validate_text_V2 U (strip U text)"
            "find_last_vowel U (strip U text) = Some v" "v \<noteq> []"
            "is_prime fsqrt (int (count_vowel_occurrences U (strip U text) (Some v))) = Inl e'"
        using g by (cases "v = []") auto
      then show ?thesis
      proof cases
        case empty
        then show ?thesis by (simp add: handle_client_V2_no_data[OF r d])
      next
        case invalid
        then show ?thesis by (simp add: handle_client_V2_not_letters[OF r d])
      next
        case novowel
        then show ?thesis by (simp add: handle_client_V2_no_vowel[OF r d])
      next
        case raised
        then show ?thesis by (simp add: handle_client_V2_overflow[OF r d])
      qed
    qed
  qed
qed

theorem log_record_per_message_witness:
  "handle_client_V2 py_ucd isqrt (ascii ''2024-05-01 10:00:00'')
          \<lparr>content = [], open_fails = False, room = None\<rparr> (client (octets ''hola''))
     = (\<lparr>content = log_record (ascii ''2024-05-01 10:00:00'') (ascii ''hola'') 1 (ascii ''NO'')
                     (ascii ''a''),
         open_fails = False, room = None\<rparr>,
        \<lparr>pending = [], recv_fails = False, send_fails = False,
         sent = [ascii ''1'' @ nl], closed = True\<rparr>)
   \<and> fst (handle_client_V2 py_ucd isqrt (ascii ''2024-05-01 10:00:00'')
          \<lparr>content = [], open_fails = False, room = None\<rparr> (client (octets ''xyz'')))
     = \<lparr>content = [], open_fails = False, room = None\<rparr>"
proof -
  have d1: "decode (take 4096 (pending (client (octets ''hola'')))) = Inr (ascii ''hola'')"
    by (rule decode_client) simp_all
  have d2: "decode (take 4096 (pending (client (octets ''xyz'')))) = Inr (ascii ''xyz'')"
    by (rule decode_client) simp_all
  have x: "strip py_ucd (ascii ''xyz'') = ascii ''xyz''"
    "find_last_vowel py_ucd (ascii ''xyz'') = None"
    by (simp_all add: strip_def find_last_vowel_None vowels_def py_tables)
  have t: "str_of_nat (Suc 0) = ascii ''1''" by (simp add: str_of_nat.simps ascii_def)
  have n: "decode (octets ''hola'') = Inr (ascii ''hola'')"
    "decode (octets ''xyz'') = Inr (ascii ''xyz'')"
    using d1 d2 by (simp_all add: client_simps length_octets)
  show ?thesis
    using log_record_per_message[of "client (octets ''hola'')" "ascii ''hola''" py_ucd
        "ascii ''a''" 1 isqrt False "ascii ''2024-05-01 10:00:00''"
        "log_record (ascii ''2024-05-01 10:00:00'') (ascii ''hola'') 1 (ascii ''NO'') (ascii ''a'')"
        "\<lparr>content = [], open_fails = False, room = None\<rparr>"]
      log_record_per_message[of "client (octets ''xyz'')" "ascii ''xyz''" py_ucd
        "ascii ''a''" 1 isqrt False "ascii ''2024-05-01 10:00:00''"
        "log_record (ascii ''2024-05-01 10:00:00'') (ascii ''xyz'') 1 (ascii ''NO'') (ascii ''a'')"
        "\<lparr>content = [], open_fails = False, room = None\<rparr>"]
    by (simp add: n hola_facts x t save_to_log_cases sendall_def close_def client_def
          length_octets prod_eq_iff)
qed




text \<open>
  C6. In the last-vowel server, a received message that passes validation (letters and
  white space only, not empty once stripped) and has no vowel is answered with the
  no-vowel error line, and the log is left as it was. \<open>find_last_vowel\<close> returns
  \<open>None\<close> exactly for the texts without a character of \<open>aeiouAEIOU\<close>.
\<close>

theorem no_vowel_reply:
  assumes "\<not> recv_fails c" and "\<not> send_fails c"
    and "decode (take 4096 (pending c)) = Inr text"
    and "validate_text_V2 U text" and "strip U text \<noteq> []"
    and "set text \<inter> vowels = {}"
  shows "handle_client_V2 U fsqrt now L c
           = (L, c\<lparr>pending := drop 4096 (pending c), sent := sent c @ [msg_no_vowel],
                   closed := True\<rparr>)
         \<and> (find_last_vowel U t = None \<longleftrightarrow> set t \<inter> vowels = {})"
proof -
  have sub: "set (strip U text) \<subseteq> set text" by (rule set_strip)
  with assms(4) have v: "validate_text_V2 U (strip U text)"
    by (auto simp: validate_text_V2_def list_all_iff)
  from sub assms(6) have "set (strip U text) \<inter> vowels = {}" by auto
  then have n: "find_last_vowel U (strip U text) = None" by (simp add: find_last_vowel_None)
  have "handle_client_V2 U fsqrt now L c
          = (L, close (snd (sendall msg_no_vowel (c\<lparr>pending := drop 4096 (pending c)\<rparr>))))"
    by (rule handle_client_V2_no_vowel[OF assms(1,3,5) v disjI1[OF n]])
  with assms(2) show ?thesis
    by (simp add: sendall_def close_def find_last_vowel_None)
qed

theorem no_vowel_reply_witness:
  "handle_client_V2 py_ucd isqrt [] \<lparr>content = [], open_fails = False, room = None\<rparr> (client (octets ''xyz''))
     = (\<lparr>content = [], open_fails = False, room = None\<rparr>,
        \<lparr>pending = [], recv_fails = False, send_fails = False,
         sent = [msg_no_vowel], closed = True\<rparr>)
   \<and> find_last_vowel py_ucd (ascii ''xyz'') = None"
proof -
  have d: "decode (take 4096 (pending (client (octets ''xyz'')))) = Inr (ascii ''xyz'')"
    by (rule decode_client) simp_all
  show ?thesis
    using no_vowel_reply[OF client_simps(2,3) d xyz_facts, of isqrt "[]"
        "\<lparr>content = [], open_fails = False, room = None\<rparr>" "ascii ''xyz''"]
    by (simp add: xyz_facts replied length_octets)
qed

text \<open>
  C7. The reply to \<open>reconocer\<close> is not 3.
\<close>

theorem reconocer_not_three:
  "sent (handle_client py_ucd (client (octets ''reconocer''))) \<noteq> [ascii ''3'' @ nl]"
  by (simp add: reconocer_handled ascii_def)

text \<open>
  C7, as the code has it. For \<open>reconocer\<close> the last letter is \<open>r\<close>, which occurs twice,
  and the reply is 2.
\<close>

theorem reconocer_reply:
  "lower py_ucd [last (ascii ''reconocer'')] = ascii ''r''
   \<and> count_last_character py_ucd (ascii ''reconocer'') = 2
   \<and> handle_client py_ucd (client (octets ''reconocer''))
       = \<lparr>pending = [], recv_fails = False, send_fails = False,
          sent = [ascii ''2'' @ nl], closed = True\<rparr>"
  using reconocer_facts(4,5) reconocer_handled by simp

text \<open>
  C8. For \<open>hello world\<close> the last-vowel server counts 2, and \<open>is_prime\<close> says that 2 is
  prime: the verdict is not "not prime".
\<close>

theorem hello_world_verdict:
  "is_prime isqrt (int (count_vowel_occurrences py_ucd (ascii ''hello world'')
      (find_last_vowel py_ucd (ascii ''hello world'')))) = Inr True"
  by (simp add: hello_world_facts is_prime_def)

text \<open>
  C8, as the code has it. The last-character server rejects \<open>hello world\<close> with the
  not-alphabetic error (it contains a space). In the last-vowel server the last vowel is
  \<open>o\<close>, the count is 2, the verdict is prime (the record says \<open>SI\<close>), and the reply is 2.
\<close>

theorem hello_world_replies:
  "handle_client py_ucd (client (octets ''hello world''))
     = \<lparr>pending = [], recv_fails = False, send_fails = False,
        sent = [msg_not_alpha], closed = True\<rparr>
   \<and> find_last_vowel py_ucd (ascii ''hello world'') = Some (ascii ''o'')
   \<and> count_vowel_occurrences py_ucd (ascii ''hello world'') (Some (ascii ''o'')) = 2
   \<and> is_prime fsqrt 2 = Inr True
   \<and> handle_client_V2 py_ucd fsqrt now L (client (octets ''hello world''))
       = (save_to_log now (ascii ''hello world'') 2 (ascii ''SI'') (ascii ''o'') L,
          \<lparr>pending = [], recv_fails = False, send_fails = False,
           sent = [ascii ''2'' @ nl], closed = True\<rparr>)"
proof -
  have d1: "decode (take 1024 (pending (client (octets ''hello world''))))
              = Inr (ascii ''hello world'')"
    by (rule decode_client) simp_all
  have d2: "decode (take 4096 (pending (client (octets ''hello world''))))
              = Inr (ascii ''hello world'')"
    by (rule decode_client) simp_all
  have h1: "handle_client py_ucd (client (octets ''hello world''))
     = \<lparr>pending = [], recv_fails = False, send_fails = False,
        sent = [msg_not_alpha], closed = True\<rparr>"
    by (simp add: handle_client_received[OF client_simps(2,3) d1] hello_world_facts
          replied length_octets)
  have p: "is_prime fsqrt 2 = Inr True" by (simp add: is_prime_def)
  have t: "str_of_nat 2 = ascii ''2''" by (simp add: str_of_nat.simps ascii_def)
  have h2: "handle_client_V2 py_ucd fsqrt now L (client (octets ''hello world''))
       = (save_to_log now (ascii ''hello world'') 2 (ascii ''SI'') (ascii ''o'') L,
          \<lparr>pending = [], recv_fails = False, send_fails = False,
           sent = [ascii ''2'' @ nl], closed = True\<rparr>)"
    using handle_client_V2_count[OF client_simps(2) d2, of py_ucd "ascii ''o''" fsqrt True now L]
    by (simp add: hello_world_facts p t sendall_def close_def client_def length_octets)
  from h1 h2 p hello_world_facts(6,7) show ?thesis by simp
qed

text \<open>
  C9. White space around a payload changes the reply when the padded payload no longer
  fits the single read of 1024 octets: 1024 letters \<open>a\<close> are answered with 1024, the
  same letters after one space with 1023.
\<close>

theorem padding_beyond_buffer:
  "sent (handle_client py_ucd (client (replicate 1024 0x61))) = [ascii ''1024'' @ nl]
   \<and> sent (handle_client py_ucd (client (0x20 # replicate 1024 0x61))) = [ascii ''1023'' @ nl]"
proof -
  have d1: "decode (take 1024 (pending (client (replicate 1024 0x61)))) = Inr (replicate 1024 97)"
    by (simp add: client_simps decode_def utf8_decode_run)
  have "utf8_decode (0x20 # replicate 1023 0x61) = Some (32 # replicate 1023 97)"
    by (simp add: utf8_decode_single utf8_decode_run)
  then have d2: "decode (take 1024 (pending (client (0x20 # replicate 1024 0x61))))
                   = Inr (32 # replicate 1023 97)"
    by (simp add: client_simps decode_def)
  have t: "str_of_nat 1024 = ascii ''1024''" "str_of_nat 1023 = ascii ''1023''"
    by (simp_all add: str_of_nat.simps ascii_def)
  have "sent (handle_client py_ucd (client (replicate 1024 0x61))) = [ascii ''1024'' @ nl]"
    by (simp add: handle_client_received[OF client_simps(2,3) d1] run_facts t client_simps)
  moreover
  have "sent (handle_client py_ucd (client (0x20 # replicate 1024 0x61))) = [ascii ''1023'' @ nl]"
    by (simp add: handle_client_received[OF client_simps(2,3) d2] run_facts t client_simps)
  ultimately show ?thesis by simp
qed

text \<open>
  C9, as the code has it. Both handlers strip the decoded text at both ends before
  anything else, so white space before and after a payload changes neither the reply
  nor (in the last-vowel server) the log, provided the padded payload still fits the
  single read: 1024 octets in the last-character server, 4096 in the last-vowel server.
\<close>

theorem white_space_padding:
  assumes "utf8_decode w1 = Some s1" and "list_all (isspace U) s1"
    and "utf8_decode w2 = Some s2" and "list_all (isspace U) s2"
  shows "(length (w1 @ p @ w2) \<le> 1024 \<longrightarrow>
            sent (handle_client U (c\<lparr>pending := w1 @ p @ w2\<rparr>))
              = sent (handle_client U (c\<lparr>pending := p\<rparr>)))
       \<and> (length (w1 @ p @ w2) \<le> 4096 \<longrightarrow>
            fst (handle_client_V2 U fsqrt now L (c\<lparr>pending := w1 @ p @ w2\<rparr>))
              = fst (handle_client_V2 U fsqrt now L (c\<lparr>pending := p\<rparr>))
          \<and> sent (snd (handle_client_V2 U fsqrt now L (c\<lparr>pending := w1 @ p @ w2\<rparr>)))
              = sent (snd (handle_client_V2 U fsqrt now L (c\<lparr>pending := p\<rparr>))))"
proof (intro conjI impI)
  note d = decode_padded[OF assms(1,3), of p]
  note s = strip_pad[OF assms(2,4)]
  let ?c' = "c\<lparr>pending := w1 @ p @ w2\<rparr>" and ?c = "c\<lparr>pending := p\<rparr>"
  {
    assume len: "length (w1 @ p @ w2) \<le> 1024"
    show "sent (handle_client U ?c') = sent (handle_client U ?c)"
    proof (cases "recv_fails c")
      case True
      then show ?thesis by (simp add: handle_client_recv_fails sendall_def close_def)
    next
      case False
      show ?thesis
      proof (cases "decode p")
        case (Inl e)
        with d len False show ?thesis
          by (simp add: handle_client_undecodable[where e=e] sendall_def close_def)
      next
        case (Inr t)
        with d len have 1: "decode (take 1024 (pending ?c')) = Inr (s1 @ t @ s2)"
          and 2: "decode (take 1024 (pending ?c)) = Inr t" by simp_all
        from False have r: "\<not> recv_fails ?c'" "\<not> recv_fails ?c" by simp_all
        show ?thesis
          unfolding handle_client_received_any[OF r(1) 1] handle_client_received_any[OF r(2) 2] s
          using len by (simp add: sendall_def close_def)
      qed
    qed
  }
  {
    assume len: "length (w1 @ p @ w2) \<le> 4096"
    have "fst (handle_client_V2 U fsqrt now L ?c') = fst (handle_client_V2 U fsqrt now L ?c)
        \<and> sent (snd (handle_client_V2 U fsqrt now L ?c'))
            = sent (snd (handle_client_V2 U fsqrt now L ?c))"
    proof (cases "recv_fails c")
      case True
      then show ?thesis by (simp add: handle_client_V2_recv_fails sendall_def close_def)
    next
      case False
      show ?thesis
      proof (cases "decode p")
        case (Inl e)
        with d len False show ?thesis
          by (simp add: handle_client_V2_undecodable[where e=e] sendall_def close_def)
      next
        case (Inr t)
        with d len have 1: "decode (take 4096 (pending ?c')) = Inr (s1 @ t @ s2)"
          and 2: "decode (take 4096 (pending ?c)) = Inr t" by simp_all
        from False have r: "\<not> recv_fails ?c" "\<not> recv_fails ?c'" by simp_all
        have "handle_client_V2 U fsqrt now L ?c' = handle_client_V2 U fsqrt now L ?c"
          using r 2 1 s by (rule handle_client_V2_same) (use len in simp)
        then show ?thesis by simp
      qed
    qed
    then show "fst (handle_client_V2 U fsqrt now L ?c') = fst (handle_client_V2 U fsqrt now L ?c)"
      and "sent (snd (handle_client_V2 U fsqrt now L ?c'))
            = sent (snd (handle_client_V2 U fsqrt now L ?c))" by simp_all
  }
qed

theorem white_space_padding_witness:
  "sent (handle_client py_ucd (client ([0x20] @ octets ''hola'' @ [0x0A])))
     = sent (handle_client py_ucd (client (octets ''hola'')))
   \<and> fst (handle_client_V2 py_ucd isqrt [] \<lparr>content = [], open_fails = False, room = None\<rparr>
          (client ([0x20] @ octets ''hola'' @ [0x0A])))
     = fst (handle_client_V2 py_ucd isqrt [] \<lparr>content = [], open_fails = False, room = None\<rparr>
          (client (octets ''hola'')))
   \<and> sent (snd (handle_client_V2 py_ucd isqrt [] \<lparr>content = [], open_fails = False, room = None\<rparr>
          (client ([0x20] @ octets ''hola'' @ [0x0A]))))
     = sent (snd (handle_client_V2 py_ucd isqrt [] \<lparr>content = [], open_fails = False, room = None\<rparr>
          (client (octets ''hola''))))"
proof -
  have a: "utf8_decode [0x20] = Some [32]" and b: "utf8_decode [0x0A] = Some [10]"
    by (simp_all add: utf8_decode_single)
  have sp: "list_all (isspace py_ucd) [32]" "list_all (isspace py_ucd) [10]"
    by (simp_all add: py_tables)
  show ?thesis
    using white_space_padding[OF a sp(1) b sp(2), of "octets ''hola''" "client []" isqrt "[]"
        "\<lparr>content = [], open_fails = False, room = None\<rparr>"]
    by (simp add: client_def length_octets)
qed

text \<open>
  C10. \<open>count_last_character\<close> returns 0 on the empty string, whatever the character
  database; it does not fail.
\<close>

theorem count_last_character_empty: "count_last_character U [] = 0"
  by (simp add: count_last_character_def)

end
